theory Spec2Isabelle
  imports Main "HOL-Library.AList" "HOL-Library.Multiset" "HOL-Library.Sublist"
    "HOL-Library.Char_ord" "HOL-Library.List_Lexorder" "HOL-Library.Word"
begin

section \<open>Python dictionaries\<close>

text \<open>
  A Python \<^verbatim>\<open>dict\<close> keeps its keys in insertion order and holds every key once. It is
  modelled as an association list: \<^verbatim>\<open>d[k] = v\<close> is \<^const>\<open>AList.update\<close> (overwrite in place,
  or append a new key at the end), a lookup is \<^const>\<open>map_of\<close>. The key lists of the
  dictionaries that the program builds are distinct; theorems that depend on it say so.
\<close>

type_synonym ('k, 'v) dict = "('k \<times> 'v) list"

definition keys :: "('k, 'v) dict \<Rightarrow> 'k list" where
  "keys d = map fst d"

definition dict_values :: "('k, 'v) dict \<Rightarrow> 'v list" where
  "dict_values d = map snd d"

text \<open>
  Both tables are created as \<^verbatim>\<open>defaultdict(dict)\<close> (source lines 51 and 55): reading
  \<^verbatim>\<open>table[k]\<close> at a key that is absent stores an empty dictionary under \<^verbatim>\<open>k\<close> and
  returns it. The lookup therefore returns the value together with the table after the read.
\<close>

definition getitem_default ::
  "('k, ('b, 'v) dict) dict \<Rightarrow> 'k \<Rightarrow> ('b, 'v) dict \<times> ('k, ('b, 'v) dict) dict" where
  "getitem_default d k =
     (case map_of d k of
        Some v \<Rightarrow> (v, d)
      | None \<Rightarrow> ([], AList.update k [] d))"

section \<open>The inconsistency detector: \<^verbatim>\<open>find_inconsistencies\<close>\<close>

text \<open>
  The three result dictionaries of \<^verbatim>\<open>find_inconsistencies\<close>, and the size table it was
  given, which the lookups of the loop may extend.
\<close>

record ('p, 'b, 'c, 's) detector =
  inconsistent_files :: "('p, ('b, 'c) dict) dict"
  missing_files :: "('p, 'b list) dict"
  size_differences :: "('p, ('b, 's) dict) dict"
  file_sizes :: "('p, ('b, 's) dict) dict"

text \<open>Source line 94: the set of the build numbers of every entry of the checksum table.\<close>

definition all_build_numbers :: "('p, ('b, 'c) dict) dict \<Rightarrow> 'b set" where
  "all_build_numbers checksums = set (concat (map keys (dict_values checksums)))"

text \<open>Source lines 97 to 113: the body of the loop over \<^verbatim>\<open>checksums.items()\<close>.\<close>

definition check_file ::
  "('b::linorder) set \<Rightarrow> 'p \<times> ('b, 'c) dict \<Rightarrow> ('p, 'b, 'c, 's) detector
     \<Rightarrow> ('p, 'b, 'c, 's) detector" where
  "check_file all_builds item st =
     (let file_path = fst item;
          build_checksums = snd item;
          build_numbers = keys build_checksums;
          st1 = (if length build_numbers < card all_builds
                 then st\<lparr>missing_files :=
                        AList.update file_path
                          (sorted_list_of_set (all_builds - set build_numbers))
                          (missing_files st)\<rparr>
                 else st);
          unique_checksums = set (dict_values build_checksums)
      in if card unique_checksums > 1
         then
           (let st2 = st1\<lparr>inconsistent_files :=
                        AList.update file_path build_checksums (inconsistent_files st1)\<rparr>;
                looked_up = getitem_default (file_sizes st2) file_path;
                file_build_sizes = fst looked_up;
                st3 = st2\<lparr>file_sizes := snd looked_up\<rparr>;
                unique_sizes = set (dict_values file_build_sizes)
            in if card unique_sizes > 1
               then st3\<lparr>size_differences :=
                        AList.update file_path file_build_sizes (size_differences st3)\<rparr>
               else st3)
         else st1)"

definition find_inconsistencies ::
  "('p, ('b::linorder, 'c) dict) dict \<Rightarrow> ('p, ('b, 's) dict) dict
     \<Rightarrow> ('p, 'b, 'c, 's) detector" where
  "find_inconsistencies checksums sizes =
     fold (check_file (all_build_numbers checksums)) checksums
       \<lparr>inconsistent_files = [], missing_files = [], size_differences = [],
        file_sizes = sizes\<rparr>"

text \<open>
  What a table records for a path: its entry, and nothing at all when the table has no
  entry for the path.
\<close>

definition entry_of :: "('p, ('b, 'v) dict) dict \<Rightarrow> 'p \<Rightarrow> ('b, 'v) dict" where
  "entry_of table p = (case map_of table p of Some d \<Rightarrow> d | None \<Rightarrow> [])"

text \<open>
  Every Python dictionary holds each key once: a table has distinct paths, and each of its
  entries has distinct build numbers.
\<close>

definition wf_table :: "('p, ('b, 'v) dict) dict \<Rightarrow> bool" where
  "wf_table table \<longleftrightarrow>
     distinct (keys table) \<and> list_all (\<lambda>d. distinct (keys d)) (dict_values table)"

text \<open>The keys of a table: its paths in order, each with the build numbers of its entry.\<close>

definition key_structure :: "('k, ('b, 'v) dict) dict \<Rightarrow> ('k \<times> 'b list) list" where
  "key_structure table = map (\<lambda>(p, d). (p, keys d)) table"

text \<open>
  The call of the detector on the pair of tables: it returns the three findings and leaves
  the pair of tables. The checksum table is only iterated (source lines 94 and 96) and
  nothing assigns to it or to one of its entries; the size table is left as the reads of
  source line 110 left it.
\<close>

definition detect ::
  "('p, ('b::linorder, 'c) dict) dict \<times> ('p, ('b, 's) dict) dict
     \<Rightarrow> (('p, ('b, 'c) dict) dict \<times> ('p, 'b list) dict \<times> ('p, ('b, 's) dict) dict)
        \<times> (('p, ('b, 'c) dict) dict \<times> ('p, ('b, 's) dict) dict)" where
  "detect tables =
     (let found = find_inconsistencies (fst tables) (snd tables)
      in ((inconsistent_files found, missing_files found, size_differences found),
          (fst tables, file_sizes found)))"

section \<open>Strings and paths\<close>

text \<open>
  Strings are lists of characters, compared as Python compares \<^verbatim>\<open>str\<close>: character by
  character, by character code, a proper prefix first.
\<close>

definition startswith :: "string \<Rightarrow> string \<Rightarrow> bool" where
  "startswith s pre = prefix pre s"

text \<open>
  \<^verbatim>\<open>s.replace(old, new)\<close>: every occurrence of \<^verbatim>\<open>old\<close>, found from the left and not
  overlapping, is replaced; an empty \<^verbatim>\<open>old\<close> matches before every character and at the end.
\<close>

function replace_from :: "string \<Rightarrow> string \<Rightarrow> string \<Rightarrow> string" where
  "replace_from old new s =
     (if s = [] then []
      else if old \<noteq> [] \<and> prefix old s then new @ replace_from old new (drop (length old) s)
      else hd s # replace_from old new (tl s))"
  by pat_completeness auto
termination
  by (relation "measure (\<lambda>(old, new, s). length s)") auto

declare replace_from.simps [simp del]

definition str_replace :: "string \<Rightarrow> string \<Rightarrow> string \<Rightarrow> string" where
  "str_replace s old new =
     (if old = [] then new @ concat (map (\<lambda>c. c # new) s) else replace_from old new s)"

text \<open>The functions of \<^verbatim>\<open>os.path\<close> (POSIX) that are plain string functions.\<close>

definition basename :: "string \<Rightarrow> string" where
  "basename p = rev (takeWhile (\<lambda>c. c \<noteq> CHR ''/'') (rev p))"

definition dirname :: "string \<Rightarrow> string" where
  "dirname p =
     (let head = take (length p - length (basename p)) p
      in if head \<noteq> [] \<and> head \<noteq> replicate (length head) (CHR ''/'')
         then rev (dropWhile (\<lambda>c. c = CHR ''/'') (rev head))
         else head)"

definition path_join :: "string \<Rightarrow> string \<Rightarrow> string" where
  "path_join a b =
     (if startswith b ''/'' then b
      else if a = [] \<or> last a = CHR ''/'' then a @ b
      else a @ ''/'' @ b)"

definition isabs :: "string \<Rightarrow> bool" where
  "isabs p = startswith p ''/''"

text \<open>A path joined with a name that does not start with a slash: a fixed prefix, then the name.\<close>

definition join_prefix :: "string \<Rightarrow> string" where
  "join_prefix a = (if a = [] \<or> last a = CHR ''/'' then a else a @ ''/'')"

text \<open>Source lines 59 and 125: the build number of a build directory.\<close>

definition build_number :: "string \<Rightarrow> string" where
  "build_number build_path = str_replace (basename build_path) ''build-'' []"

text \<open>\<^verbatim>\<open>', '.join(xs)\<close> and the decimal \<^verbatim>\<open>str\<close> of a natural number.\<close>

fun join_with :: "string \<Rightarrow> string list \<Rightarrow> string" where
  "join_with sep [] = []"
| "join_with sep [x] = x"
| "join_with sep (x # y # ys) = x @ sep @ join_with sep (y # ys)"

definition digit_char :: "nat \<Rightarrow> char" where
  "digit_char d = char_of (of_char (CHR ''0'') + d)"

fun str_nat :: "nat \<Rightarrow> string" where
  "str_nat n = (if n < 10 then [digit_char n] else str_nat (n div 10) @ [digit_char (n mod 10)])"

declare str_nat.simps [simp del]

section \<open>The environment\<close>

text \<open>
  The file system and the process environment, as the program reads them. A call that
  raises \<^verbatim>\<open>OSError\<close> returns \<open>None\<close> (or \<open>False\<close> for opening the report file).
  \<^verbatim>\<open>os.walk\<close> yields triples of a directory, its subdirectories and its files.
\<close>

type_synonym byte = "8 word"

record os_env =
  path_exists :: "string \<Rightarrow> bool"
  listdir :: "string \<Rightarrow> string list option"
  walk :: "string \<Rightarrow> (string \<times> string list \<times> string list) list"
  open_rb :: "string \<Rightarrow> byte list option"
  getsize :: "string \<Rightarrow> nat option"
  relpath :: "string \<Rightarrow> string \<Rightarrow> string"
  abspath :: "string \<Rightarrow> string"
  getcwd :: "string"
  script_file :: "string"
  open_w :: "string \<Rightarrow> bool"

text \<open>
  \<^verbatim>\<open>hashlib.sha256\<close>: a new hash object, \<^verbatim>\<open>update\<close> and \<^verbatim>\<open>hexdigest\<close>. The library is not
  part of the program and is a parameter of the model.
\<close>

record 'h hashlib =
  sha256_new :: "'h"
  sha256_update :: "'h \<Rightarrow> byte list \<Rightarrow> 'h"
  sha256_hexdigest :: "'h \<Rightarrow> string"

text \<open>
  What the documentation of \<^verbatim>\<open>hashlib\<close> promises of a hash object: \<^verbatim>\<open>m.update(a);
  m.update(b)\<close> is equivalent to \<^verbatim>\<open>m.update(a + b)\<close>, and an update with no bytes
  changes nothing.
\<close>

definition hash_contract :: "'h hashlib \<Rightarrow> bool" where
  "hash_contract H \<longleftrightarrow>
     (\<forall>h a b. sha256_update H (sha256_update H h a) b = sha256_update H h (a @ b))
     \<and> (\<forall>h. sha256_update H h [] = h)"

datatype error = OSError | UnicodeEncodeError | SystemExit int

datatype ('c, 'm, 's) report = Report
  (builds_analyzed: "string list")
  (total_builds: nat)
  (inconsistent_count: nat) (inconsistent_detail: 'c)
  (missing_count: nat) (missing_detail: 'm)
  (size_count: nat) (size_detail: 's)

type_synonym checksum_table = "(string, (string, string) dict) dict"
type_synonym size_table = "(string, (string, nat) dict) dict"
type_synonym missing_table = "(string, string list) dict"

text \<open>
  What a run does that can be observed, in the order it happens: a line printed, a file
  read through the hash, the report written to a file.
\<close>

datatype event =
    Print string
  | Hashed string
  | ReportWritten string "(checksum_table, missing_table, size_table) report"

fun is_print :: "event \<Rightarrow> bool" where
  "is_print (Print s) = True"
| "is_print (Hashed p) = False"
| "is_print (ReportWritten p r) = False"

text \<open>
  A computation returns the events it caused and either its value or the exception that
  ended it; \<open>bind_io\<close> runs a second computation after a first one that returned.
\<close>

type_synonym 'a io = "event list \<times> (error + 'a)"

definition bind_io :: "'a io \<Rightarrow> ('a \<Rightarrow> 'b io) \<Rightarrow> 'b io" where
  "bind_io m f =
     (case m of
        (ev, Inl e) \<Rightarrow> (ev, Inl e)
      | (ev, Inr x) \<Rightarrow> (case f x of (ev', r) \<Rightarrow> (ev @ ev', r)))"

text \<open>
  Standard output, as \<^verbatim>\<open>print\<close> meets it: a line is written, or it holds a character that
  the encoding of the stream does not have and \<^verbatim>\<open>print\<close> raises \<^verbatim>\<open>UnicodeEncodeError\<close>, or
  the write fails and \<^verbatim>\<open>print\<close> raises \<^verbatim>\<open>OSError\<close>. The stream is flushed once more when
  the interpreter exits, and that flush can fail too.
\<close>

datatype stdout_result = Written | CannotEncode | WriteFails

record stdout =
  write_line :: "string \<Rightarrow> stdout_result"
  flush_fails :: bool

definition print :: "stdout \<Rightarrow> string \<Rightarrow> unit io" where
  "print out s =
     (case write_line out s of
        Written \<Rightarrow> ([Print s], Inr ())
      | CannotEncode \<Rightarrow> ([], Inl UnicodeEncodeError)
      | WriteFails \<Rightarrow> ([], Inl OSError))"

text \<open>Several calls of \<^verbatim>\<open>print\<close> in a row: the first that raises ends them.\<close>

fun print_all :: "stdout \<Rightarrow> string list \<Rightarrow> unit io" where
  "print_all out [] = ([], Inr ())"
| "print_all out (line # rest) = bind_io (print out line) (\<lambda>_. print_all out rest)"

section \<open>The build locator: \<^verbatim>\<open>find_builds\<close>\<close>

definition find_builds :: "stdout \<Rightarrow> os_env \<Rightarrow> string \<Rightarrow> string \<Rightarrow> string list io" where
  "find_builds out os dist_record_dir version =
     (let version_dir = path_join dist_record_dir version
      in if \<not> path_exists os version_dir
         then bind_io (print out (''No builds found for version '' @ version))
                (\<lambda>_. ([], Inr []))
         else
           (case listdir os version_dir of
              None \<Rightarrow> ([], Inl OSError)
            | Some items \<Rightarrow>
                ([], Inr (sort (map (path_join version_dir)
                                 (filter (\<lambda>item. startswith item ''build-'') items))))))"

section \<open>The checksum collector\<close>

text \<open>
  Source lines 17 and 18: \<^verbatim>\<open>f.read(4096)\<close> returns the next 4096 bytes of the file, fewer
  at its end, and the loop stops at the first empty block.
\<close>

function read_blocks :: "'h hashlib \<Rightarrow> 'h \<Rightarrow> byte list \<Rightarrow> 'h" where
  "read_blocks H sha256_hash rest =
     (let byte_block = take 4096 rest
      in if byte_block = [] then sha256_hash
         else read_blocks H (sha256_update H sha256_hash byte_block) (drop 4096 rest))"
  by pat_completeness auto
termination
  by (relation "measure (\<lambda>(H, h, rest). length rest)") auto

declare read_blocks.simps [simp del]

definition calculate_file_checksum :: "'h hashlib \<Rightarrow> os_env \<Rightarrow> string \<Rightarrow> string io" where
  "calculate_file_checksum H os file_path =
     (case open_rb os file_path of
        None \<Rightarrow> ([], Inl OSError)
      | Some content \<Rightarrow>
          ([Hashed file_path],
           Inr (sha256_hexdigest H (read_blocks H (sha256_new H) content))))"

definition get_all_files :: "os_env \<Rightarrow> string \<Rightarrow> string list" where
  "get_all_files os directory =
     concat (map (\<lambda>(root, dirs, files). map (path_join root) files) (walk os directory))"

definition get_relative_path :: "os_env \<Rightarrow> string \<Rightarrow> string \<Rightarrow> string" where
  "get_relative_path os file_path base_dir = relpath os file_path base_dir"

text \<open>\<^verbatim>\<open>table[rel_path][build_number] = v\<close> on a \<^verbatim>\<open>defaultdict(dict)\<close>.\<close>

definition setitem2 ::
  "('k, ('b, 'v) dict) dict \<Rightarrow> 'k \<Rightarrow> 'b \<Rightarrow> 'v \<Rightarrow> ('k, ('b, 'v) dict) dict" where
  "setitem2 table k b v =
     (let looked_up = getitem_default table k
      in AList.update k (AList.update b v (fst looked_up)) (snd looked_up))"

text \<open>
  Source lines 65 to 67 (and again 73 to 75, 81 to 83): one file of one build. The checksum
  is computed and stored first, then the size is read and stored.
\<close>

definition record_file ::
  "'h hashlib \<Rightarrow> os_env \<Rightarrow> string \<Rightarrow> string \<Rightarrow> string \<Rightarrow> checksum_table \<times> size_table
     \<Rightarrow> (checksum_table \<times> size_table) io" where
  "record_file H os build_path build_no file_path tables =
     (let rel_path = get_relative_path os file_path build_path
      in bind_io (calculate_file_checksum H os file_path) (\<lambda>checksum.
           (let checksums = setitem2 (fst tables) rel_path build_no checksum
            in case getsize os file_path of
                 None \<Rightarrow> ([], Inl OSError)
               | Some n \<Rightarrow> ([], Inr (checksums, setitem2 (snd tables) rel_path build_no n)))))"

fun record_files ::
  "'h hashlib \<Rightarrow> os_env \<Rightarrow> string \<Rightarrow> string \<Rightarrow> string list \<Rightarrow> checksum_table \<times> size_table
     \<Rightarrow> (checksum_table \<times> size_table) io" where
  "record_files H os build_path build_no [] tables = ([], Inr tables)"
| "record_files H os build_path build_no (file_path # rest) tables =
     bind_io (record_file H os build_path build_no file_path tables)
       (record_files H os build_path build_no rest)"

text \<open>Source lines 62 to 67: one output directory of one build, skipped when absent.\<close>

definition process_dist_dir ::
  "'h hashlib \<Rightarrow> os_env \<Rightarrow> string \<Rightarrow> string \<Rightarrow> string \<Rightarrow> checksum_table \<times> size_table
     \<Rightarrow> (checksum_table \<times> size_table) io" where
  "process_dist_dir H os build_path build_no name tables =
     (let dist_dir = path_join build_path name
      in if path_exists os dist_dir
         then record_files H os build_path build_no (get_all_files os dist_dir) tables
         else ([], Inr tables))"

definition process_build ::
  "'h hashlib \<Rightarrow> os_env \<Rightarrow> string \<Rightarrow> checksum_table \<times> size_table
     \<Rightarrow> (checksum_table \<times> size_table) io" where
  "process_build H os build_path tables =
     (let build_no = build_number build_path
      in bind_io (process_dist_dir H os build_path build_no ''dist-firefox'' tables) (\<lambda>t1.
         bind_io (process_dist_dir H os build_path build_no ''dist-chrome'' t1) (\<lambda>t2.
         process_dist_dir H os build_path build_no ''dist-zip'' t2)))"

fun process_builds ::
  "'h hashlib \<Rightarrow> os_env \<Rightarrow> string list \<Rightarrow> checksum_table \<times> size_table
     \<Rightarrow> (checksum_table \<times> size_table) io" where
  "process_builds H os [] tables = ([], Inr tables)"
| "process_builds H os (build_path # rest) tables =
     bind_io (process_build H os build_path tables) (process_builds H os rest)"

definition compare_checksums ::
  "'h hashlib \<Rightarrow> os_env \<Rightarrow> string list \<Rightarrow> (checksum_table \<times> size_table) io" where
  "compare_checksums H os builds = process_builds H os builds ([], [])"

section \<open>The report generator and \<^verbatim>\<open>main\<close>\<close>

text \<open>Source lines 145 to 151: the seven lines of the summary.\<close>

definition summary_lines :: "string list \<Rightarrow> nat \<Rightarrow> nat \<Rightarrow> nat \<Rightarrow> string list" where
  "summary_lines build_numbers n_inconsistent n_missing n_size =
     [CHR 0x0A # ''Checksum Comparison Report'',
      ''========================'',
      ''Builds analyzed: '' @ join_with '', '' build_numbers,
      ''Total builds: '' @ str_nat (length build_numbers),
      ''Files with inconsistent checksums: '' @ str_nat n_inconsistent,
      ''Files missing in some builds: '' @ str_nat n_missing,
      ''Files with size differences: '' @ str_nat n_size]"

text \<open>Source lines 154 to 159: the listing of the inconsistent files.\<close>

definition detail_lines :: "checksum_table \<Rightarrow> string list" where
  "detail_lines inconsistent =
     (if inconsistent \<noteq> []
      then (CHR 0x0A # ''Inconsistent Files:'') #
           concat (map (\<lambda>(file_path, checksums).
                     (CHR 0x0A # ''  '' @ file_path @ '':'') #
                     map (\<lambda>(build, checksum). ''    Build '' @ build @ '': '' @ checksum)
                       checksums)
                   inconsistent)
      else [])"

text \<open>
  An output file that is \<^verbatim>\<open>None\<close> or the empty string is false in \<^verbatim>\<open>if output_file\<close>.
  The JSON text that \<^verbatim>\<open>json.dump\<close> writes is not modelled: the event carries the report.
\<close>

definition make_report ::
  "checksum_table \<Rightarrow> missing_table \<Rightarrow> size_table \<Rightarrow> string list
     \<Rightarrow> (checksum_table, missing_table, size_table) report" where
  "make_report inconsistent missing size_diffs build_numbers =
     Report build_numbers (length build_numbers)
       (length inconsistent) inconsistent
       (length missing) missing
       (length size_diffs) size_diffs"

text \<open>Source lines 162 to 165: the report file, when one was asked for.\<close>

definition write_report ::
  "stdout \<Rightarrow> os_env \<Rightarrow> string option \<Rightarrow> (checksum_table, missing_table, size_table) report
     \<Rightarrow> unit io" where
  "write_report out os output_file report =
     (case output_file of
        None \<Rightarrow> ([], Inr ())
      | Some f \<Rightarrow>
          if f = [] then ([], Inr ())
          else if \<not> open_w os f then ([], Inl OSError)
          else bind_io ([ReportWritten f report], Inr ())
                 (\<lambda>_. print out (CHR 0x0A # ''Detailed report saved to '' @ f)))"

definition generate_report ::
  "stdout \<Rightarrow> os_env \<Rightarrow> checksum_table \<Rightarrow> missing_table \<Rightarrow> size_table \<Rightarrow> string list \<Rightarrow> string option
     \<Rightarrow> unit io" where
  "generate_report out os inconsistent missing size_diffs builds output_file =
     (let build_numbers = map build_number builds;
          report = make_report inconsistent missing size_diffs build_numbers
      in bind_io (print_all out (summary_lines build_numbers (length inconsistent)
                                  (length missing) (length size_diffs))) (\<lambda>_.
         bind_io (print_all out (detail_lines inconsistent)) (\<lambda>_.
         write_report out os output_file report)))"

record args =
  arg_version :: string
  arg_dist_record :: string
  arg_output :: "string option"

definition resolve_output :: "os_env \<Rightarrow> string option \<Rightarrow> string option" where
  "resolve_output os output_file =
     (case output_file of
        None \<Rightarrow> None
      | Some f \<Rightarrow>
          if f \<noteq> [] \<and> \<not> isabs f then Some (abspath os (path_join (getcwd os) f))
          else Some f)"

definition resolve_dist_record :: "os_env \<Rightarrow> args \<Rightarrow> string" where
  "resolve_dist_record os a =
     (let script_dir = dirname (abspath os (script_file os))
      in abspath os (path_join script_dir (arg_dist_record a)))"

definition main :: "'h hashlib \<Rightarrow> stdout \<Rightarrow> os_env \<Rightarrow> args \<Rightarrow> unit io" where
  "main H out os a =
     (let dist_record_dir = resolve_dist_record os a
      in bind_io (find_builds out os dist_record_dir (arg_version a)) (\<lambda>builds.
         if builds = [] then ([], Inl (SystemExit 1))
         else
           bind_io (print out (''Found '' @ str_nat (length builds) @ '' builds for version ''
                                @ arg_version a)) (\<lambda>_.
           bind_io (print_all out (map (\<lambda>build. ''  - '' @ basename build) builds)) (\<lambda>_.
           bind_io (print out (CHR 0x0A # ''Calculating checksums...'')) (\<lambda>_.
           bind_io (compare_checksums H os builds) (\<lambda>tables.
           bind_io (print out ''Finding inconsistencies...'') (\<lambda>_.
             (let found = find_inconsistencies (fst tables) (snd tables);
                  output_file = resolve_output os (arg_output a)
              in generate_report out os (inconsistent_files found) (missing_files found)
                   (size_differences found) builds output_file))))))))"


section \<open>A concrete run\<close>

text \<open>
  The scenario of the specification: version 1.0 has the builds 001 and 002, each with the
  file \<^verbatim>\<open>dist-zip/app.bin\<close>, one byte long in build 001 and two bytes long in build 002.
  The directory listing is not sorted and holds an entry that is not a build.
\<close>

definition example_os :: os_env where
  "example_os =
     \<lparr>path_exists = (\<lambda>p. p \<in> set [''/r/1.0'', ''/r/1.0/build-001/dist-zip'',
                                     ''/r/1.0/build-002/dist-zip'']),
      listdir = (\<lambda>p. if p = ''/r/1.0'' then Some [''build-002'', ''notes.txt'', ''build-001'']
                      else None),
      walk = (\<lambda>p. if p = ''/r/1.0/build-001/dist-zip'' \<or> p = ''/r/1.0/build-002/dist-zip''
                   then [(p, [], [''app.bin''])] else []),
      open_rb = (\<lambda>p. if p = ''/r/1.0/build-001/dist-zip/app.bin'' then Some [0x41]
                      else if p = ''/r/1.0/build-002/dist-zip/app.bin'' then Some [0x42, 0x42]
                      else None),
      getsize = (\<lambda>p. if p = ''/r/1.0/build-001/dist-zip/app.bin'' then Some 1
                      else if p = ''/r/1.0/build-002/dist-zip/app.bin'' then Some 2
                      else None),
      relpath = (\<lambda>p base. drop (Suc (length base)) p),
      abspath = (\<lambda>p. p),
      getcwd = ''/w'',
      script_file = ''/s/compare_checksums.py'',
      open_w = (\<lambda>p. True)\<rparr>"

text \<open>A standard output that takes every line, and one that takes ASCII only.\<close>

definition plain_stdout :: stdout where
  "plain_stdout = \<lparr>write_line = (\<lambda>s. Written), flush_fails = False\<rparr>"




definition example_args :: args where
  "example_args = \<lparr>arg_version = ''1.0'', arg_dist_record = ''/r'', arg_output = Some ''out.json''\<rparr>"

text \<open>
  A small hash with the interface of \<^verbatim>\<open>hashlib.sha256\<close>, to run the model: the state is a
  32-bit word, each byte is folded into it, the digest is its eight hexadecimal digits.
\<close>

definition hex_digit :: "nat \<Rightarrow> char" where
  "hex_digit n = ''0123456789abcdef'' ! (n mod 16)"

definition example_hashlib :: "32 word hashlib" where
  "example_hashlib =
     \<lparr>sha256_new = 0,
      sha256_update = (\<lambda>h block. fold (\<lambda>b acc. acc * 31 + ucast b) block h),
      sha256_hexdigest = (\<lambda>h. map (\<lambda>i. hex_digit (unat (drop_bit (4 * i) h)))
                                  [7, 6, 5, 4, 3, 2, 1, 0])\<rparr>"

text \<open>Tables with an inconsistent file and with a file that only build 001 has.\<close>

definition example_checksums :: checksum_table where
  "example_checksums =
     [(''dist-zip/app.bin'', [(''001'', ''00000041''), (''002'', ''00000840'')]),
      (''dist-zip/only.txt'', [(''001'', ''0000000a'')])]"

definition example_sizes :: size_table where
  "example_sizes =
     [(''dist-zip/app.bin'', [(''001'', 1), (''002'', 2)]),
      (''dist-zip/only.txt'', [(''001'', 1)])]"

section \<open>Properties of the detector\<close>

subsection \<open>One step of the loop\<close>

lemma in_keys_iff: "p \<in> set (keys d) \<longleftrightarrow> map_of d p \<noteq> None"
  by (simp add: keys_def map_of_eq_None_iff)

lemma getitem_default_fst: "fst (getitem_default d k) = entry_of d k"
  by (simp add: getitem_default_def entry_of_def split: option.splits)

lemma entry_of_getitem_default: "entry_of (snd (getitem_default d k)) q = entry_of d q"
  by (simp add: getitem_default_def entry_of_def update_conv' split: option.splits)

lemma check_file_inconsistent:
  "map_of (inconsistent_files (check_file A (p, d) st)) q =
     (if q = p \<and> 1 < card (set (dict_values d)) then Some d
      else map_of (inconsistent_files st) q)"
  by (simp add: check_file_def Let_def update_conv')

lemma check_file_missing:
  "map_of (missing_files (check_file A (p, d) st)) q =
     (if q = p \<and> length (keys d) < card A
      then Some (sorted_list_of_set (A - set (keys d)))
      else map_of (missing_files st) q)"
  by (simp add: check_file_def Let_def update_conv')

lemma check_file_entry_of:
  "entry_of (file_sizes (check_file A item st)) q = entry_of (file_sizes st) q"
  by (simp add: check_file_def Let_def entry_of_getitem_default)

lemma check_file_size_differences:
  "map_of (size_differences (check_file A (p, d) st)) q =
     (if q = p \<and> 1 < card (set (dict_values d))
          \<and> 1 < card (set (dict_values (entry_of (file_sizes st) p)))
      then Some (entry_of (file_sizes st) p)
      else map_of (size_differences st) q)"
  by (simp add: check_file_def Let_def update_conv' getitem_default_fst)

lemma check_file_file_sizes:
  "file_sizes (check_file A (p, d) st) =
     (if 1 < card (set (dict_values d)) \<and> map_of (file_sizes st) p = None
      then AList.update p [] (file_sizes st) else file_sizes st)"
  by (auto simp: check_file_def Let_def getitem_default_def split: option.splits)

subsection \<open>The whole loop, over a table with distinct paths\<close>

lemma fold_entry_of:
  "entry_of (file_sizes (fold (check_file A) cs st)) q = entry_of (file_sizes st) q"
  by (induction cs arbitrary: st) (simp_all add: check_file_entry_of)

lemma fold_inconsistent:
  "distinct (map fst cs) \<Longrightarrow>
   map_of (inconsistent_files (fold (check_file A) cs st)) q =
     (case map_of cs q of
        Some d \<Rightarrow> if 1 < card (set (dict_values d)) then Some d
                  else map_of (inconsistent_files st) q
      | None \<Rightarrow> map_of (inconsistent_files st) q)"
proof (induction cs arbitrary: st)
  case Nil
  then show ?case by simp
next
  case (Cons item cs)
  obtain p d where item: "item = (p, d)" by (cases item)
  from Cons.prems item have fresh: "map_of cs p = None" and dist: "distinct (map fst cs)"
    by (auto simp: map_of_eq_None_iff)
  show ?case
    using fresh
    by (auto simp: item Cons.IH [OF dist] check_file_inconsistent split: option.splits)
qed

lemma fold_missing:
  "distinct (map fst cs) \<Longrightarrow>
   map_of (missing_files (fold (check_file A) cs st)) q =
     (case map_of cs q of
        Some d \<Rightarrow> if length (keys d) < card A
                  then Some (sorted_list_of_set (A - set (keys d)))
                  else map_of (missing_files st) q
      | None \<Rightarrow> map_of (missing_files st) q)"
proof (induction cs arbitrary: st)
  case Nil
  then show ?case by simp
next
  case (Cons item cs)
  obtain p d where item: "item = (p, d)" by (cases item)
  from Cons.prems item have fresh: "map_of cs p = None" and dist: "distinct (map fst cs)"
    by (auto simp: map_of_eq_None_iff)
  show ?case
    using fresh by (auto simp: item Cons.IH [OF dist] check_file_missing split: option.splits)
qed

lemma fold_size_differences:
  "distinct (map fst cs) \<Longrightarrow>
   map_of (size_differences (fold (check_file A) cs st)) q =
     (case map_of cs q of
        Some d \<Rightarrow> if 1 < card (set (dict_values d))
                      \<and> 1 < card (set (dict_values (entry_of (file_sizes st) q)))
                  then Some (entry_of (file_sizes st) q)
                  else map_of (size_differences st) q
      | None \<Rightarrow> map_of (size_differences st) q)"
proof (induction cs arbitrary: st)
  case Nil
  then show ?case by simp
next
  case (Cons item cs)
  obtain p d where item: "item = (p, d)" by (cases item)
  from Cons.prems item have fresh: "map_of cs p = None" and dist: "distinct (map fst cs)"
    by (auto simp: map_of_eq_None_iff)
  show ?case
    using fresh
    by (auto simp: item Cons.IH [OF dist] check_file_size_differences check_file_entry_of
        split: option.splits)
qed

subsection \<open>The set of all build numbers\<close>

lemma all_build_numbers_Union:
  "all_build_numbers cs = (\<Union>d \<in> set (dict_values cs). set (keys d))"
  by (simp add: all_build_numbers_def)

lemma finite_all_build_numbers: "finite (all_build_numbers cs)"
  by (simp add: all_build_numbers_def)

lemma keys_subset_all:
  "map_of cs p = Some d \<Longrightarrow> set (keys d) \<subseteq> all_build_numbers cs"
  by (auto simp: all_build_numbers_Union dict_values_def dest!: map_of_SomeD
      intro!: bexI [of _ "(p, d)"])

text \<open>
  The test of source line 100 compares two lengths; on a dictionary, whose keys are
  distinct, it is the test for a strict subset.
\<close>

lemma length_less_card_iff:
  assumes "map_of cs p = Some d" and "distinct (keys d)"
  shows "length (keys d) < card (all_build_numbers cs)
           \<longleftrightarrow> set (keys d) \<subset> all_build_numbers cs"
proof -
  have sub: "set (keys d) \<subseteq> all_build_numbers cs" using assms(1) by (rule keys_subset_all)
  have len: "length (keys d) = card (set (keys d))" using assms(2) by (simp add: distinct_card)
  show ?thesis
  proof
    assume "length (keys d) < card (all_build_numbers cs)"
    with len have "set (keys d) \<noteq> all_build_numbers cs" by auto
    with sub show "set (keys d) \<subset> all_build_numbers cs" by blast
  next
    assume "set (keys d) \<subset> all_build_numbers cs"
    then show "length (keys d) < card (all_build_numbers cs)"
      using len finite_all_build_numbers [of cs] by (simp add: psubset_card_mono)
  qed
qed

text \<open>
  C3. A path is in the inconsistent-checksum finding exactly when the checksum table has an
  entry for it with more than one distinct checksum, and it is then recorded with that
  whole entry: every build of the entry, each with its checksum.
\<close>

theorem inconsistent_checksum_finding:
  assumes "distinct (keys checksums)"
  shows "(p \<in> set (keys (inconsistent_files (find_inconsistencies checksums sizes)))
           \<longleftrightarrow> (\<exists>d. map_of checksums p = Some d \<and> 1 < card (set (dict_values d))))
       \<and> (\<forall>d. map_of checksums p = Some d \<and> 1 < card (set (dict_values d))
             \<longrightarrow> map_of (inconsistent_files (find_inconsistencies checksums sizes)) p = Some d)"
proof -
  have dist: "distinct (map fst checksums)" using assms by (simp add: keys_def)
  show ?thesis
    by (auto simp: in_keys_iff find_inconsistencies_def fold_inconsistent [OF dist]
        split: option.splits if_splits)
qed

theorem inconsistent_checksum_finding_witness:
  "distinct (keys example_checksums)
   \<and> 1 < card (set (dict_values [(''001'', ''00000041''), (''002'', ''00000840'')]))
   \<and> map_of (inconsistent_files (find_inconsistencies example_checksums example_sizes))
       ''dist-zip/app.bin'' = Some [(''001'', ''00000041''), (''002'', ''00000840'')]
   \<and> ''dist-zip/only.txt''
       \<notin> set (keys (inconsistent_files (find_inconsistencies example_checksums example_sizes)))"
proof -
  have h: "distinct (keys example_checksums)"
    by (simp add: example_checksums_def keys_def)
  have e: "map_of example_checksums ''dist-zip/app.bin''
             = Some [(''001'', ''00000041''), (''002'', ''00000840'')]"
    by (simp add: example_checksums_def)
  have c: "1 < card (set (dict_values [(''001'', ''00000041''), (''002'', ''00000840'')]))"
    by (simp add: dict_values_def)
  have n: "\<not> (\<exists>d. map_of example_checksums ''dist-zip/only.txt'' = Some d
               \<and> 1 < card (set (dict_values d)))"
    by (simp add: example_checksums_def dict_values_def)
  show ?thesis
    using h e c n
      inconsistent_checksum_finding [OF h, of "''dist-zip/app.bin''" example_sizes]
      inconsistent_checksum_finding [OF h, of "''dist-zip/only.txt''" example_sizes]
    by blast
qed

text \<open>
  C2. A path is in the missing-files finding exactly when the builds of its entry are a
  strict subset of the builds of all entries of the checksum table; it is recorded with the
  builds that its entry lacks, in ascending order and each once. Every build so listed has
  an entry for some path: a build without any entry is never listed.
\<close>

theorem missing_files_finding:
  assumes "wf_table checksums"
  shows "(p \<in> set (keys (missing_files (find_inconsistencies checksums sizes)))
           \<longleftrightarrow> (\<exists>d. map_of checksums p = Some d
                  \<and> set (keys d) \<subset> (\<Union>e \<in> set (dict_values checksums). set (keys e))))
       \<and> (\<forall>d. map_of checksums p = Some d
                \<and> set (keys d) \<subset> (\<Union>e \<in> set (dict_values checksums). set (keys e))
             \<longrightarrow> map_of (missing_files (find_inconsistencies checksums sizes)) p
                   = Some (sorted_list_of_set
                       ((\<Union>e \<in> set (dict_values checksums). set (keys e)) - set (keys d))))
       \<and> (\<forall>bs d. map_of (missing_files (find_inconsistencies checksums sizes)) p = Some bs
                \<and> map_of checksums p = Some d
             \<longrightarrow> sorted bs \<and> distinct bs
               \<and> set bs = (\<Union>e \<in> set (dict_values checksums). set (keys e)) - set (keys d)
               \<and> (\<forall>b \<in> set bs. \<exists>e \<in> set (dict_values checksums). b \<in> set (keys e)))"
proof -
  let ?A = "all_build_numbers checksums"
  have dist: "distinct (map fst checksums)" using assms by (simp add: wf_table_def keys_def)
  have inner: "distinct (keys d)" if "map_of checksums p = Some d" for d
  proof -
    from that have "(p, d) \<in> set checksums" by (rule map_of_SomeD)
    then have "d \<in> set (dict_values checksums)" by (force simp: dict_values_def)
    with assms show ?thesis by (simp add: wf_table_def list_all_iff)
  qed
  have look: "map_of (missing_files (find_inconsistencies checksums sizes)) p =
      (case map_of checksums p of
         Some d \<Rightarrow> if set (keys d) \<subset> ?A then Some (sorted_list_of_set (?A - set (keys d)))
                   else None
       | None \<Rightarrow> None)"
    using length_less_card_iff [of checksums p] inner
    by (simp add: find_inconsistencies_def fold_missing [OF dist] split: option.splits)
  have fin: "finite (?A - B)" for B using finite_all_build_numbers [of checksums] by simp
  show ?thesis
    unfolding all_build_numbers_Union [symmetric]
    using fin
    by (auto simp: in_keys_iff look all_build_numbers_Union split: option.splits if_splits)
qed

theorem missing_files_finding_witness:
  "wf_table example_checksums
   \<and> set (keys [(''001'', ''0000000a'')])
       \<subset> (\<Union>e \<in> set (dict_values example_checksums). set (keys e))
   \<and> map_of (missing_files (find_inconsistencies example_checksums example_sizes))
       ''dist-zip/only.txt'' = Some [''002'']
   \<and> ''dist-zip/app.bin''
       \<notin> set (keys (missing_files (find_inconsistencies example_checksums example_sizes)))"
proof -
  have h: "wf_table example_checksums"
    by (simp add: wf_table_def example_checksums_def keys_def dict_values_def)
  have u: "(\<Union>e \<in> set (dict_values example_checksums). set (keys e)) = {''001'', ''002''}"
    by (auto simp: example_checksums_def keys_def dict_values_def)
  have e: "map_of example_checksums ''dist-zip/only.txt'' = Some [(''001'', ''0000000a'')]"
    by (simp add: example_checksums_def)
  have s: "set (keys [(''001'', ''0000000a'')])
       \<subset> (\<Union>e \<in> set (dict_values example_checksums). set (keys e))"
    unfolding u by (auto simp: keys_def)
  have d: "{''001'', ''002''} - set (keys [(''001'', ''0000000a'')]) = {''002''}"
    by (auto simp: keys_def)
  have n: "\<not> (\<exists>d. map_of example_checksums ''dist-zip/app.bin'' = Some d
               \<and> set (keys d) \<subset> (\<Union>e \<in> set (dict_values example_checksums). set (keys e)))"
    unfolding u by (auto simp: example_checksums_def keys_def)
  have "map_of (missing_files (find_inconsistencies example_checksums example_sizes))
       ''dist-zip/only.txt'' = Some (sorted_list_of_set
           ((\<Union>e \<in> set (dict_values example_checksums). set (keys e))
              - set (keys [(''001'', ''0000000a'')])))"
    using missing_files_finding [OF h, of "''dist-zip/only.txt''" example_sizes] e s
    by blast
  then have v: "map_of (missing_files (find_inconsistencies example_checksums example_sizes))
       ''dist-zip/only.txt'' = Some [''002'']"
    by (simp add: u d)
  show ?thesis
    using h s v n missing_files_finding [OF h, of "''dist-zip/app.bin''" example_sizes]
    by blast
qed

text \<open>
  C1. A path is in the size-differences finding exactly when it is in the
  inconsistent-checksum finding and the size table records more than one distinct size for
  it. So the size-differences finding is a subset of the inconsistent-checksum finding, and
  a path whose recorded sizes are all equal is not in it.
\<close>

theorem size_differences_finding:
  assumes "distinct (keys checksums)"
  shows "(p \<in> set (keys (size_differences (find_inconsistencies checksums sizes)))
           \<longleftrightarrow> p \<in> set (keys (inconsistent_files (find_inconsistencies checksums sizes)))
               \<and> 1 < card (set (dict_values (entry_of sizes p))))
       \<and> set (keys (size_differences (find_inconsistencies checksums sizes)))
           \<subseteq> set (keys (inconsistent_files (find_inconsistencies checksums sizes)))
       \<and> (card (set (dict_values (entry_of sizes p))) \<le> 1
             \<longrightarrow> p \<notin> set (keys (size_differences (find_inconsistencies checksums sizes))))"
proof -
  have dist: "distinct (map fst checksums)" using assms(1) by (simp add: keys_def)
  have iff: "(q \<in> set (keys (size_differences (find_inconsistencies checksums sizes)))
           \<longleftrightarrow> q \<in> set (keys (inconsistent_files (find_inconsistencies checksums sizes)))
               \<and> 1 < card (set (dict_values (entry_of sizes q))))" for q
    by (auto simp: in_keys_iff find_inconsistencies_def fold_inconsistent [OF dist]
        fold_size_differences [OF dist] split: option.splits if_splits)
  show ?thesis using iff [of p] iff by auto
qed

theorem size_differences_finding_witness:
  "distinct (keys example_checksums)
   \<and> card (set (dict_values (entry_of
         [(''dist-zip/app.bin'', [(''001'', 2::nat), (''002'', 2)])] ''dist-zip/app.bin''))) \<le> 1
   \<and> ''dist-zip/app.bin'' \<notin> set (keys (size_differences (find_inconsistencies
         example_checksums [(''dist-zip/app.bin'', [(''001'', 2::nat), (''002'', 2)])])))
   \<and> 1 < card (set (dict_values (entry_of example_sizes ''dist-zip/app.bin'')))
   \<and> ''dist-zip/app.bin''
       \<in> set (keys (inconsistent_files (find_inconsistencies example_checksums example_sizes)))
   \<and> ''dist-zip/app.bin''
       \<in> set (keys (size_differences (find_inconsistencies example_checksums example_sizes)))"
proof -
  have h: "distinct (keys example_checksums)"
    by (simp add: example_checksums_def keys_def)
  have eq: "card (set (dict_values (entry_of
         [(''dist-zip/app.bin'', [(''001'', 2::nat), (''002'', 2)])] ''dist-zip/app.bin''))) \<le> 1"
    by (simp add: entry_of_def dict_values_def)
  have ne: "1 < card (set (dict_values (entry_of example_sizes ''dist-zip/app.bin'')))"
    by (simp add: example_sizes_def entry_of_def dict_values_def)
  have inc: "''dist-zip/app.bin''
       \<in> set (keys (inconsistent_files (find_inconsistencies example_checksums example_sizes)))"
    by code_simp
  show ?thesis
    using h eq ne inc
      size_differences_finding [OF h, of "''dist-zip/app.bin''"
        "[(''dist-zip/app.bin'', [(''001'', 2::nat), (''002'', 2)])]"]
      size_differences_finding [OF h, of "''dist-zip/app.bin''" example_sizes]
    by blast
qed

text \<open>
  C10. A path whose entry in the checksum table has exactly one build is in neither the
  inconsistent-checksum finding nor the size-differences finding. It is in the missing-files
  finding exactly when the table holds another build as well.
\<close>

theorem single_build_entry:
  assumes "distinct (keys checksums)"
    and "map_of checksums p = Some d"
    and "keys d = [b]"
  shows "p \<notin> set (keys (inconsistent_files (find_inconsistencies checksums sizes)))
       \<and> p \<notin> set (keys (size_differences (find_inconsistencies checksums sizes)))
       \<and> (p \<in> set (keys (missing_files (find_inconsistencies checksums sizes)))
            \<longleftrightarrow> all_build_numbers checksums \<noteq> {b})"
proof -
  have dist: "distinct (map fst checksums)" using assms(1) by (simp add: keys_def)
  from assms(3) obtain c where d: "d = [(b, c)]" by (cases d) (auto simp: keys_def)
  have vals: "card (set (dict_values d)) = 1" by (simp add: d dict_values_def)
  have sub: "b \<in> all_build_numbers checksums"
    using keys_subset_all [OF assms(2)] assms(3) by simp
  have "1 < card (all_build_numbers checksums) \<longleftrightarrow> all_build_numbers checksums \<noteq> {b}"
  proof
    assume "1 < card (all_build_numbers checksums)"
    then show "all_build_numbers checksums \<noteq> {b}" by auto
  next
    assume ne: "all_build_numbers checksums \<noteq> {b}"
    with sub have "{b} \<subset> all_build_numbers checksums" by blast
    then have "card {b} < card (all_build_numbers checksums)"
      using finite_all_build_numbers by (rule psubset_card_mono [rotated])
    then show "1 < card (all_build_numbers checksums)" by simp
  qed
  then show ?thesis
    using assms(2) vals
    by (simp add: in_keys_iff find_inconsistencies_def fold_inconsistent [OF dist]
        fold_size_differences [OF dist] fold_missing [OF dist] assms(3))
qed

theorem single_build_entry_witness:
  "distinct (keys example_checksums)
   \<and> map_of example_checksums ''dist-zip/only.txt'' = Some [(''001'', ''0000000a'')]
   \<and> keys [(''001'', ''0000000a'')] = [''001'']
   \<and> all_build_numbers example_checksums \<noteq> {''001''}
   \<and> ''dist-zip/only.txt''
       \<notin> set (keys (inconsistent_files (find_inconsistencies example_checksums example_sizes)))
   \<and> ''dist-zip/only.txt''
       \<notin> set (keys (size_differences (find_inconsistencies example_checksums example_sizes)))
   \<and> ''dist-zip/only.txt''
       \<in> set (keys (missing_files (find_inconsistencies example_checksums example_sizes)))"
proof -
  have h: "distinct (keys example_checksums)"
    by (simp add: example_checksums_def keys_def)
  have e: "map_of example_checksums ''dist-zip/only.txt'' = Some [(''001'', ''0000000a'')]"
    by (simp add: example_checksums_def)
  have k: "keys [(''001'', ''0000000a'')] = [''001'']"
    by (simp add: keys_def)
  have a: "all_build_numbers example_checksums \<noteq> {''001''}"
    by (auto simp: all_build_numbers_def example_checksums_def keys_def dict_values_def)
  show ?thesis
    using h e k a single_build_entry [OF h e k, of example_sizes] by blast
qed

subsection \<open>Running the detector again\<close>

lemma check_file_same_findings:
  assumes "inconsistent_files st = inconsistent_files st'"
    and "missing_files st = missing_files st'"
    and "size_differences st = size_differences st'"
    and "\<And>q. entry_of (file_sizes st) q = entry_of (file_sizes st') q"
  shows "inconsistent_files (check_file A item st) = inconsistent_files (check_file A item st')
       \<and> missing_files (check_file A item st) = missing_files (check_file A item st')
       \<and> size_differences (check_file A item st) = size_differences (check_file A item st')"
  using assms by (simp add: check_file_def Let_def getitem_default_fst)

lemma fold_same_findings:
  assumes "inconsistent_files st = inconsistent_files st'"
    and "missing_files st = missing_files st'"
    and "size_differences st = size_differences st'"
    and "\<And>q. entry_of (file_sizes st) q = entry_of (file_sizes st') q"
  shows "inconsistent_files (fold (check_file A) cs st)
           = inconsistent_files (fold (check_file A) cs st')
       \<and> missing_files (fold (check_file A) cs st) = missing_files (fold (check_file A) cs st')
       \<and> size_differences (fold (check_file A) cs st)
           = size_differences (fold (check_file A) cs st')"
  using assms
proof (induction cs arbitrary: st st')
  case Nil
  then show ?case by simp
next
  case (Cons item cs)
  have step: "inconsistent_files (check_file A item st) = inconsistent_files (check_file A item st')
       \<and> missing_files (check_file A item st) = missing_files (check_file A item st')
       \<and> size_differences (check_file A item st) = size_differences (check_file A item st')"
    by (rule check_file_same_findings) (rule Cons.prems)+
  show ?case
    unfolding fold_simps
    by (rule Cons.IH) (simp_all add: step check_file_entry_of Cons.prems(4))
qed

lemma fold_file_sizes_unchanged:
  assumes "\<forall>(p, d) \<in> set cs. 1 < card (set (dict_values d)) \<longrightarrow> p \<in> set (keys (file_sizes st))"
  shows "file_sizes (fold (check_file A) cs st) = file_sizes st"
  using assms
proof (induction cs arbitrary: st)
  case Nil
  then show ?case by simp
next
  case (Cons item cs)
  obtain p d where item: "item = (p, d)" by (cases item)
  have step: "file_sizes (check_file A item st) = file_sizes st"
    using Cons.prems by (auto simp: item check_file_file_sizes in_keys_iff)
  have "file_sizes (fold (check_file A) cs (check_file A item st))
          = file_sizes (check_file A item st)"
    by (rule Cons.IH) (use Cons.prems step in auto)
  with step show ?case by simp
qed

lemma keys_key_structure: "keys table = map fst (key_structure table)"
  by (simp add: keys_def key_structure_def split_def)

text \<open>
  A size table with the paths of the checksum table has an entry wherever the loop reads
  one, so no read of source line 110 stores anything.
\<close>

lemma parallel_tables_unchanged:
  assumes "key_structure checksums = key_structure sizes"
  shows "file_sizes (find_inconsistencies checksums sizes) = sizes"
proof -
  have "keys checksums = keys sizes"
    using assms by (simp add: keys_key_structure)
  moreover have "p \<in> set (keys checksums)" if "(p, d) \<in> set checksums" for p d
    using that by (force simp: keys_def)
  ultimately have "\<forall>(p, d) \<in> set checksums. p \<in> set (keys sizes)"
    by auto
  then have "\<forall>(p, d) \<in> set checksums.
      1 < card (set (dict_values d)) \<longrightarrow> p \<in> set (keys sizes)"
    by blast
  then show ?thesis
    using fold_file_sizes_unchanged
      [of checksums "\<lparr>inconsistent_files = [], missing_files = [], size_differences = [],
          file_sizes = sizes\<rparr>" "all_build_numbers checksums"]
    by (simp add: find_inconsistencies_def)
qed

text \<open>
  C8. Applied a second time, to the tables as the first call left them, the detector
  returns the same three findings. It leaves the checksum table as it was, and it leaves
  the size table as it was when that is the size table of the checksum table: the same
  paths with the same builds, as the data model has it and as the collector returns it.
\<close>

theorem detector_pure:
  "fst (detect (snd (detect (checksums, sizes)))) = fst (detect (checksums, sizes))
   \<and> fst (snd (detect (checksums, sizes))) = checksums
   \<and> (key_structure checksums = key_structure sizes
        \<longrightarrow> snd (detect (checksums, sizes)) = (checksums, sizes))"
proof -
  let ?A = "all_build_numbers checksums"
  let ?init = "\<lambda>s. \<lparr>inconsistent_files = [], missing_files = [], size_differences = [],
        file_sizes = s\<rparr> :: ('a, 'b, 'c, 'd) detector"
  have same: "inconsistent_files (fold (check_file ?A) checksums
                 (?init (file_sizes (find_inconsistencies checksums sizes))))
           = inconsistent_files (fold (check_file ?A) checksums (?init sizes))
       \<and> missing_files (fold (check_file ?A) checksums
                 (?init (file_sizes (find_inconsistencies checksums sizes))))
           = missing_files (fold (check_file ?A) checksums (?init sizes))
       \<and> size_differences (fold (check_file ?A) checksums
                 (?init (file_sizes (find_inconsistencies checksums sizes))))
           = size_differences (fold (check_file ?A) checksums (?init sizes))"
    by (rule fold_same_findings) (simp_all add: find_inconsistencies_def fold_entry_of)
  then have again: "fst (detect (snd (detect (checksums, sizes)))) = fst (detect (checksums, sizes))"
    by (simp add: detect_def Let_def find_inconsistencies_def)
  have "snd (detect (checksums, sizes)) = (checksums, sizes)"
    if "key_structure checksums = key_structure sizes"
    using parallel_tables_unchanged [OF that] by (simp add: detect_def Let_def)
  with again show ?thesis
    by (simp add: detect_def Let_def)
qed

theorem detector_pure_witness:
  "key_structure example_checksums = key_structure example_sizes
   \<and> snd (detect (example_checksums, example_sizes)) = (example_checksums, example_sizes)
   \<and> fst (detect (snd (detect (example_checksums, example_sizes))))
       = fst (detect (example_checksums, example_sizes))
   \<and> fst (detect (example_checksums, example_sizes))
       = ([(''dist-zip/app.bin'', [(''001'', ''00000041''), (''002'', ''00000840'')])],
          [(''dist-zip/only.txt'', [''002''])],
          [(''dist-zip/app.bin'', [(''001'', 1), (''002'', 2)])])"
proof -
  have h: "key_structure example_checksums = key_structure example_sizes"
    by (simp add: key_structure_def keys_def example_checksums_def example_sizes_def)
  have v: "fst (detect (example_checksums, example_sizes))
       = ([(''dist-zip/app.bin'', [(''001'', ''00000041''), (''002'', ''00000840'')])],
          [(''dist-zip/only.txt'', [''002''])],
          [(''dist-zip/app.bin'', [(''001'', 1), (''002'', 2)])])"
    by code_simp
  show ?thesis
    using h v detector_pure [of example_checksums example_sizes] by blast
qed

section \<open>Properties of the build locator\<close>

lemma sort_cong_mset:
  fixes xs ys :: "('a::linorder) list"
  assumes "mset xs = mset ys"
  shows "sort xs = sort ys"
  by (rule properties_for_sort) (simp_all add: assms)

lemma append_le_append: "(pre @ a \<le> pre @ b) \<longleftrightarrow> (a \<le> b)" for a b :: "('a::linorder) list"
  by (induction pre) simp_all

lemma sort_map_append:
  fixes xs :: "('a::linorder) list list"
  shows "sort (map ((@) pre) xs) = map ((@) pre) (sort xs)"
proof (rule properties_for_sort)
  show "mset (map ((@) pre) (sort xs)) = mset (map ((@) pre) xs)" by simp
  have "sorted (sort xs)" by simp
  then show "sorted (map ((@) pre) (sort xs))"
    by (simp add: sorted_map sorted_wrt_iff_nth_less append_le_append)
qed

lemma path_join_prefix:
  "\<not> startswith item ''/'' \<Longrightarrow> path_join a item = join_prefix a @ item"
  by (simp add: path_join_def join_prefix_def)

lemma build_not_slash: "startswith item ''build-'' \<Longrightarrow> \<not> startswith item ''/''"
  by (auto simp: startswith_def prefix_def)

lemma basename_join_prefix:
  assumes "CHR ''/'' \<notin> set item"
  shows "basename (join_prefix a @ item) = item"
proof -
  have tw: "takeWhile (\<lambda>c. c \<noteq> CHR ''/'') (rev item @ r) = rev item"
    if "r = [] \<or> hd r = CHR ''/''" for r
    using assms that by (cases r) (auto simp: takeWhile_append)
  have "rev (join_prefix a) = [] \<or> hd (rev (join_prefix a)) = CHR ''/''"
    by (cases "a = []") (auto simp: join_prefix_def hd_rev)
  then show ?thesis
    by (simp add: basename_def tw)
qed

lemma map_path_join_builds:
  "map (path_join a) (filter (\<lambda>item. startswith item ''build-'') items)
     = map ((@) (join_prefix a)) (filter (\<lambda>item. startswith item ''build-'') items)"
  by (rule map_cong) (auto simp: path_join_prefix build_not_slash)


text \<open>
  C5. When the version directory exists, the locator returns the children whose names start
  with \<^verbatim>\<open>build-\<close>, each joined to the version directory, in ascending order; they are in
  the order of their names. Two listings of the same entries in different orders give the
  same result.
\<close>

theorem find_builds_sorted:
  assumes "path_exists os' (path_join dist_record_dir version)
             \<longleftrightarrow> path_exists os (path_join dist_record_dir version)"
    and "listdir os (path_join dist_record_dir version) = Some items"
    and "listdir os' (path_join dist_record_dir version) = Some items'"
    and "mset items' = mset items"
  shows "find_builds out os' dist_record_dir version = find_builds out os dist_record_dir version
       \<and> (path_exists os (path_join dist_record_dir version) \<longrightarrow>
            (\<exists>builds. find_builds out os dist_record_dir version = ([], Inr builds)
               \<and> sorted builds
               \<and> set builds = path_join (path_join dist_record_dir version)
                                ` {item \<in> set items. startswith item ''build-''}
               \<and> (list_all (\<lambda>item. CHR ''/'' \<notin> set item) items \<longrightarrow>
                    map basename builds
                      = sort (filter (\<lambda>item. startswith item ''build-'') items))))"
proof -
  let ?vd = "path_join dist_record_dir version"
  let ?P = "\<lambda>item. startswith item ''build-''"
  let ?builds = "sort (map (path_join ?vd) (filter ?P items))"
  have "mset (map (path_join ?vd) (filter ?P items'))
          = mset (map (path_join ?vd) (filter ?P items))"
    using assms(4) by simp
  then have perm: "sort (map (path_join ?vd) (filter ?P items')) = ?builds"
    by (rule sort_cong_mset)
  have same: "find_builds out os' dist_record_dir version = find_builds out os dist_record_dir version"
    using assms(1-3) perm by (simp add: find_builds_def Let_def)
  have names: "map basename ?builds = sort (filter ?P items)"
    if "list_all (\<lambda>item. CHR ''/'' \<notin> set item) items"
  proof -
    have "map basename (map ((@) (join_prefix ?vd)) (sort (filter ?P items)))
            = sort (filter ?P items)"
      using that by (auto simp: list_all_iff basename_join_prefix intro!: map_idI)
    then show ?thesis
      by (simp only: map_path_join_builds sort_map_append)
  qed
  have "find_builds out os dist_record_dir version = ([], Inr ?builds)
      \<and> sorted ?builds
      \<and> set ?builds = path_join ?vd ` {item \<in> set items. ?P item}
      \<and> (list_all (\<lambda>item. CHR ''/'' \<notin> set item) items \<longrightarrow>
           map basename ?builds = sort (filter ?P items))"
    if "path_exists os ?vd"
    using that assms(2) names by (auto simp: find_builds_def Let_def)
  with same show ?thesis by blast
qed

theorem find_builds_sorted_witness:
  "path_exists example_os (path_join ''/r'' ''1.0'')
   \<and> listdir example_os (path_join ''/r'' ''1.0'') = Some [''build-002'', ''notes.txt'', ''build-001'']
   \<and> listdir (example_os\<lparr>listdir := \<lambda>p. Some [''build-001'', ''build-002'', ''notes.txt'']\<rparr>)
       (path_join ''/r'' ''1.0'') = Some [''build-001'', ''build-002'', ''notes.txt'']
   \<and> mset [''build-001'', ''build-002'', ''notes.txt''] = mset [''build-002'', ''notes.txt'', ''build-001'']
   \<and> find_builds plain_stdout
       (example_os\<lparr>listdir := \<lambda>p. Some [''build-001'', ''build-002'', ''notes.txt'']\<rparr>)
       ''/r'' ''1.0''
     = find_builds plain_stdout example_os ''/r'' ''1.0''
   \<and> find_builds plain_stdout example_os ''/r'' ''1.0''
     = ([], Inr [''/r/1.0/build-001'', ''/r/1.0/build-002''])"
proof -
  let ?os' = "example_os\<lparr>listdir := \<lambda>p. Some [''build-001'', ''build-002'', ''notes.txt'']\<rparr>"
  have e: "path_exists example_os (path_join ''/r'' ''1.0'')"
    by code_simp
  have e': "path_exists ?os' (path_join ''/r'' ''1.0'')
             \<longleftrightarrow> path_exists example_os (path_join ''/r'' ''1.0'')"
    by (simp add: example_os_def)
  have l: "listdir example_os (path_join ''/r'' ''1.0'')
             = Some [''build-002'', ''notes.txt'', ''build-001'']"
    by code_simp
  have l': "listdir ?os' (path_join ''/r'' ''1.0'') = Some [''build-001'', ''build-002'', ''notes.txt'']"
    by simp
  have m: "mset [''build-001'', ''build-002'', ''notes.txt''] = mset [''build-002'', ''notes.txt'', ''build-001'']"
    by (simp add: add.commute)
  have v: "find_builds plain_stdout example_os ''/r'' ''1.0''
      = ([], Inr [''/r/1.0/build-001'', ''/r/1.0/build-002''])"
    by code_simp
  show ?thesis
    using e l l' m v find_builds_sorted [OF e' l l' m, of plain_stdout] by blast
qed

subsection \<open>Build numbers\<close>

lemma replace_from_no_occurrence:
  assumes "old \<noteq> []" and "\<forall>i. \<not> prefix old (drop i s)"
  shows "replace_from old new s = s"
  using assms
proof (induction s)
  case Nil
  then show ?case by (simp add: replace_from.simps)
next
  case (Cons c s)
  from Cons.prems(2) have here: "\<not> prefix old (c # s)" by (metis drop0)
  have "\<forall>i. \<not> prefix old (drop i s)"
  proof
    fix i
    from Cons.prems(2) have "\<not> prefix old (drop (Suc i) (c # s))" by blast
    then show "\<not> prefix old (drop i s)" by simp
  qed
  with Cons.IH Cons.prems(1) have "replace_from old new s = s" by blast
  with here show ?case by (simp add: replace_from.simps [of old new "c # s"])
qed

lemma build_number_of_plain_suffix:
  assumes "CHR ''/'' \<notin> set s" and "\<forall>i. \<not> prefix ''build-'' (drop i s)"
  shows "build_number (path_join d (''build-'' @ s)) = s"
proof -
  have ns: "CHR ''/'' \<notin> set (''build-'' @ s)" using assms(1) by simp
  have "path_join d (''build-'' @ s) = join_prefix d @ (''build-'' @ s)"
    by (rule path_join_prefix) (simp add: startswith_def)
  then have "basename (path_join d (''build-'' @ s)) = ''build-'' @ s"
    using basename_join_prefix [OF ns] by simp
  moreover have "replace_from ''build-'' [] (''build-'' @ s) = replace_from ''build-'' [] s"
    by (subst replace_from.simps) simp
  ultimately show ?thesis
    using replace_from_no_occurrence [OF _ assms(2), of "[]"]
    by (simp add: build_number_def str_replace_def)
qed

text \<open>
  C4. The locator accepts the directory \<^verbatim>\<open>build-build-7\<close>, and its build number is
  \<^verbatim>\<open>7\<close>, not \<^verbatim>\<open>build-7\<close>: \<^verbatim>\<open>replace\<close> removes every occurrence of \<^verbatim>\<open>build-\<close>, not
  only the prefix. The directory \<^verbatim>\<open>build-7\<close> has the same build number.
\<close>

theorem build_number_removes_every_occurrence:
  "startswith ''build-build-7'' ''build-''
   \<and> build_number (path_join ''/r/1.0'' ''build-build-7'') = ''7''
   \<and> build_number (path_join ''/r/1.0'' ''build-7'') = ''7''"
  by code_simp

section \<open>Properties of the checksum collector\<close>

subsection \<open>Streaming a file through the hash\<close>

lemma read_blocks_update:
  "hash_contract H \<Longrightarrow> read_blocks H h rest = sha256_update H h rest"
proof (induction H h rest rule: read_blocks.induct)
  case (1 H h rest)
  show ?case
  proof (cases "take 4096 rest = []")
    case True
    then have "rest = []" by simp
    then show ?thesis
      using "1.prems" by (simp add: read_blocks.simps [of H h] hash_contract_def)
  next
    case False
    have "read_blocks H h rest
            = read_blocks H (sha256_update H h (take 4096 rest)) (drop 4096 rest)"
      using False by (simp add: read_blocks.simps [of H h rest] Let_def)
    also have "\<dots> = sha256_update H (sha256_update H h (take 4096 rest)) (drop 4096 rest)"
      using False "1.prems" by (intro "1.IH") simp_all
    also have "\<dots> = sha256_update H h (take 4096 rest @ drop 4096 rest)"
      using "1.prems" by (simp add: hash_contract_def)
    finally show ?thesis by simp
  qed
qed

lemma fold_update_concat:
  assumes "hash_contract H"
  shows "fold (\<lambda>block h. sha256_update H h block) chunks h = sha256_update H h (concat chunks)"
  using assms
  by (induction chunks arbitrary: h) (simp_all add: hash_contract_def)

text \<open>
  C6. With a hash object that keeps the contract of \<^verbatim>\<open>hashlib\<close> (two updates are one
  update with the concatenation), the loop over blocks of 4096 bytes leaves the hash object
  as one update with the whole content does, the checksum of a readable file is the digest
  of its whole content, and every split of the content into chunks gives that digest.
\<close>

theorem streaming_checksum:
  assumes "hash_contract H"
  shows "read_blocks H (sha256_new H) content = sha256_update H (sha256_new H) content
       \<and> (open_rb os file_path = Some content \<longrightarrow>
            snd (calculate_file_checksum H os file_path)
              = Inr (sha256_hexdigest H (sha256_update H (sha256_new H) content)))
       \<and> (\<forall>chunks. concat chunks = content \<longrightarrow>
            sha256_hexdigest H (fold (\<lambda>block h. sha256_update H h block) chunks (sha256_new H))
              = sha256_hexdigest H (read_blocks H (sha256_new H) content))"
  using assms
  by (auto simp: read_blocks_update fold_update_concat calculate_file_checksum_def)

lemma example_hashlib_contract: "hash_contract example_hashlib"
  by (simp add: hash_contract_def example_hashlib_def)

theorem streaming_checksum_witness:
  "hash_contract example_hashlib
   \<and> open_rb example_os ''/r/1.0/build-002/dist-zip/app.bin'' = Some [0x42, 0x42]
   \<and> concat [[0x42], [], [0x42 :: byte]] = [0x42, 0x42]
   \<and> snd (calculate_file_checksum example_hashlib example_os ''/r/1.0/build-002/dist-zip/app.bin'')
       = Inr (sha256_hexdigest example_hashlib
           (sha256_update example_hashlib (sha256_new example_hashlib) [0x42, 0x42]))
   \<and> sha256_hexdigest example_hashlib
         (fold (\<lambda>block h. sha256_update example_hashlib h block) [[0x42], [], [0x42]]
           (sha256_new example_hashlib))
       = sha256_hexdigest example_hashlib
           (read_blocks example_hashlib (sha256_new example_hashlib) [0x42, 0x42])"
proof -
  have c: "hash_contract example_hashlib"
    by (simp add: hash_contract_def example_hashlib_def)
  have o: "open_rb example_os ''/r/1.0/build-002/dist-zip/app.bin'' = Some [0x42, 0x42]"
    by (simp add: example_os_def)
  have k: "concat [[0x42], [], [0x42 :: byte]] = [0x42, 0x42]"
    by simp
  show ?thesis
    using c o k
      streaming_checksum [OF c, of "[0x42, 0x42]" example_os
        "''/r/1.0/build-002/dist-zip/app.bin''"]
    by blast
qed

subsection \<open>The two tables have the same keys\<close>

lemma setitem2_update:
  "setitem2 table k b v = AList.update k (AList.update b v (entry_of table k)) table"
  by (simp add: setitem2_def getitem_default_def entry_of_def split: option.splits)

lemma key_structure_update:
  "key_structure (AList.update k d table) = AList.update k (keys d) (key_structure table)"
  by (induction table) (auto simp: key_structure_def)

lemma map_of_key_structure:
  "map_of (key_structure table) k = map_option keys (map_of table k)"
  by (induction table) (auto simp: key_structure_def)

lemma keys_entry_of:
  "keys (entry_of table k) = (case map_of (key_structure table) k of Some ks \<Rightarrow> ks | None \<Rightarrow> [])"
  by (simp add: map_of_key_structure entry_of_def keys_def split: option.splits)

lemma keys_update:
  "keys (AList.update b v d) = (if b \<in> set (keys d) then keys d else keys d @ [b])"
  by (simp add: keys_def update_keys)

lemma key_structure_setitem2:
  assumes "key_structure table = key_structure table'"
  shows "key_structure (setitem2 table k b v) = key_structure (setitem2 table' k b v')"
proof -
  have "keys (entry_of table k) = keys (entry_of table' k)"
    by (simp only: keys_entry_of assms)
  then have "keys (AList.update b v (entry_of table k))
               = keys (AList.update b v' (entry_of table' k))"
    by (simp only: keys_update)
  then show ?thesis
    by (simp only: setitem2_update key_structure_update assms)
qed

lemma bind_io_Inr:
  "snd (bind_io m f) = Inr y \<longleftrightarrow> (\<exists>x. snd m = Inr x \<and> snd (f x) = Inr y)"
  by (cases m; cases "snd m") (auto simp: bind_io_def split: prod.splits sum.splits)

text \<open>
  A property of the pair of tables that every file visit keeps is kept by the whole
  collection, whenever it returns.
\<close>

lemma record_files_invariant:
  assumes step: "\<And>file_path t t'. P t \<Longrightarrow>
      snd (record_file H os build_path build_no file_path t) = Inr t' \<Longrightarrow> P t'"
    and "snd (record_files H os build_path build_no files tables) = Inr tables'"
    and "P tables"
  shows "P tables'"
  using assms(2,3)
proof (induction files arbitrary: tables)
  case Nil
  then show ?case by simp
next
  case (Cons file_path rest)
  from Cons.prems(1) obtain mid where
    one: "snd (record_file H os build_path build_no file_path tables) = Inr mid" and
    more: "snd (record_files H os build_path build_no rest mid) = Inr tables'"
    by (auto simp: bind_io_Inr)
  from Cons.prems(2) one have "P mid" by (rule step)
  with more show ?case by (rule Cons.IH)
qed

lemma process_dist_dir_invariant:
  assumes step: "\<And>file_path t t'. P t \<Longrightarrow>
      snd (record_file H os build_path build_no file_path t) = Inr t' \<Longrightarrow> P t'"
    and "snd (process_dist_dir H os build_path build_no name tables) = Inr tables'"
    and "P tables"
  shows "P tables'"
proof (cases "path_exists os (path_join build_path name)")
  case True
  with assms(2) have "snd (record_files H os build_path build_no
      (get_all_files os (path_join build_path name)) tables) = Inr tables'"
    by (simp add: process_dist_dir_def Let_def)
  with step show ?thesis using assms(3) by (rule record_files_invariant)
next
  case False
  with assms(2,3) show ?thesis by (simp add: process_dist_dir_def Let_def)
qed

lemma process_build_invariant:
  assumes step: "\<And>build_no file_path t t'. P t \<Longrightarrow>
      snd (record_file H os build_path build_no file_path t) = Inr t' \<Longrightarrow> P t'"
    and "snd (process_build H os build_path tables) = Inr tables'"
    and "P tables"
  shows "P tables'"
proof -
  from assms(2) obtain t1 t2 where
    s1: "snd (process_dist_dir H os build_path (build_number build_path) ''dist-firefox'' tables)
           = Inr t1" and
    s2: "snd (process_dist_dir H os build_path (build_number build_path) ''dist-chrome'' t1)
           = Inr t2" and
    s3: "snd (process_dist_dir H os build_path (build_number build_path) ''dist-zip'' t2)
           = Inr tables'"
    by (auto simp: process_build_def Let_def bind_io_Inr)
  from step s1 assms(3) have "P t1" by (rule process_dist_dir_invariant)
  with step s2 have "P t2" by (rule process_dist_dir_invariant)
  with step s3 show ?thesis by (rule process_dist_dir_invariant)
qed

lemma process_builds_invariant:
  assumes step: "\<And>build_path build_no file_path t t'. P t \<Longrightarrow>
      snd (record_file H os build_path build_no file_path t) = Inr t' \<Longrightarrow> P t'"
    and "snd (process_builds H os builds tables) = Inr tables'"
    and "P tables"
  shows "P tables'"
  using assms(2,3)
proof (induction builds arbitrary: tables)
  case Nil
  then show ?case by simp
next
  case (Cons build_path rest)
  from Cons.prems(1) obtain mid where
    one: "snd (process_build H os build_path tables) = Inr mid" and
    more: "snd (process_builds H os rest mid) = Inr tables'"
    by (auto simp: bind_io_Inr)
  from step one Cons.prems(2) have "P mid" by (rule process_build_invariant)
  with more show ?case by (rule Cons.IH)
qed

lemma record_file_keys:
  assumes "key_structure (fst tables) = key_structure (snd tables)"
    and "snd (record_file H os build_path build_no file_path tables) = Inr tables'"
  shows "key_structure (fst tables') = key_structure (snd tables')"
  using assms
  by (auto simp: record_file_def Let_def bind_io_Inr key_structure_setitem2
      split: option.splits)

text \<open>The tables of the collector are dictionaries: no path and no build number twice.\<close>

lemma values_update_subset:
  "set (dict_values (AList.update k v al)) \<subseteq> insert v (set (dict_values al))"
  by (induction al) (auto simp: dict_values_def)

lemma entry_of_cases: "entry_of table k = [] \<or> entry_of table k \<in> set (dict_values table)"
  by (auto simp: entry_of_def dict_values_def split: option.splits dest!: map_of_SomeD
      intro!: image_eqI [where x = "(k, _)"])

lemma setitem2_wf:
  assumes "wf_table table"
  shows "wf_table (setitem2 table k b v)"
proof -
  have "distinct (keys (entry_of table k))"
    using assms entry_of_cases [of table k] by (auto simp: wf_table_def list_all_iff keys_def)
  then have inner: "distinct (keys (AList.update b v (entry_of table k)))"
    by (simp add: keys_def distinct_update)
  have "distinct (keys (setitem2 table k b v))"
    using assms by (simp add: setitem2_update wf_table_def keys_def distinct_update)
  moreover have "list_all (\<lambda>d. distinct (keys d)) (dict_values (setitem2 table k b v))"
    using assms inner
      values_update_subset [of k "AList.update b v (entry_of table k)" table]
    by (auto simp: setitem2_update wf_table_def list_all_iff)
  ultimately show ?thesis by (simp add: wf_table_def)
qed

lemma record_file_wf:
  assumes "wf_table (fst tables) \<and> wf_table (snd tables)"
    and "snd (record_file H os build_path build_no file_path tables) = Inr tables'"
  shows "wf_table (fst tables') \<and> wf_table (snd tables')"
  using assms
  by (auto simp: record_file_def Let_def bind_io_Inr setitem2_wf split: option.splits)

lemma collector_tables_wf:
  assumes "snd (compare_checksums H os builds) = Inr (checksums, sizes)"
  shows "wf_table checksums \<and> wf_table sizes"
proof -
  have start: "wf_table (fst (([], []) :: checksum_table \<times> size_table))
      \<and> wf_table (snd (([], []) :: checksum_table \<times> size_table))"
    by (simp add: wf_table_def keys_def dict_values_def)
  have "wf_table (fst (checksums, sizes)) \<and> wf_table (snd (checksums, sizes))"
    using record_file_wf assms [unfolded compare_checksums_def] start
    by (rule process_builds_invariant)
  then show ?thesis by simp
qed

lemma has_entry_iff:
  "(\<exists>v. map_of (entry_of table p) b = Some v) \<longleftrightarrow> b \<in> set (keys (entry_of table p))"
  by (auto simp: in_keys_iff)

text \<open>
  C9. When the collector returns, the checksum table and the size table have the same
  paths in the same order, and under each path the same build numbers in the same order;
  so one table has an entry at a path and a build exactly when the other has.
\<close>

theorem tables_same_keys:
  assumes "snd (compare_checksums H os builds) = Inr (checksums, sizes)"
  shows "key_structure checksums = key_structure sizes
       \<and> ((\<exists>c. map_of (entry_of checksums p) b = Some c)
            \<longleftrightarrow> (\<exists>n. map_of (entry_of sizes p) b = Some n))"
proof -
  have start: "key_structure (fst (([], []) :: checksum_table \<times> size_table))
      = key_structure (snd (([], []) :: checksum_table \<times> size_table))"
    by (simp add: key_structure_def)
  have "key_structure (fst (checksums, sizes)) = key_structure (snd (checksums, sizes))"
    using record_file_keys assms [unfolded compare_checksums_def] start
    by (rule process_builds_invariant)
  then have ks: "key_structure checksums = key_structure sizes" by simp
  then have "keys (entry_of checksums p) = keys (entry_of sizes p)"
    by (simp add: keys_entry_of)
  with ks show ?thesis
    by (simp add: has_entry_iff)
qed

theorem tables_same_keys_witness:
  "snd (compare_checksums example_hashlib example_os [''/r/1.0/build-001'', ''/r/1.0/build-002''])
     = Inr ([(''dist-zip/app.bin'', [(''001'', ''00000041''), (''002'', ''00000840'')])],
            [(''dist-zip/app.bin'', [(''001'', 1), (''002'', 2)])])
   \<and> key_structure [(''dist-zip/app.bin'', [(''001'', ''00000041''), (''002'', ''00000840'')])]
       = key_structure [(''dist-zip/app.bin'', [(''001'', 1 :: nat), (''002'', 2)])]"
proof -
  have r: "snd (compare_checksums example_hashlib example_os
                 [''/r/1.0/build-001'', ''/r/1.0/build-002''])
     = Inr ([(''dist-zip/app.bin'', [(''001'', ''00000041''), (''002'', ''00000840'')])],
            [(''dist-zip/app.bin'', [(''001'', 1), (''002'', 2)])])"
    by code_simp
  show ?thesis
    using r tables_same_keys [OF r] by blast
qed

subsection \<open>The detector on the tables of the collector\<close>

lemma collected_tables_parallel:
  assumes "snd (compare_checksums H os builds) = Inr (checksums, sizes)"
  shows "key_structure checksums = key_structure sizes"
proof -
  have start: "key_structure (fst (([], []) :: checksum_table \<times> size_table))
      = key_structure (snd (([], []) :: checksum_table \<times> size_table))"
    by (simp add: key_structure_def)
  have "key_structure (fst (checksums, sizes)) = key_structure (snd (checksums, sizes))"
    using record_file_keys assms [unfolded compare_checksums_def] start
    by (rule process_builds_invariant)
  then show ?thesis by simp
qed

text \<open>The detector leaves the two tables that the collector returned as they are.\<close>

lemma detector_leaves_collected_tables:
  assumes "snd (compare_checksums H os builds) = Inr (checksums, sizes)"
  shows "snd (detect (checksums, sizes)) = (checksums, sizes)"
  using parallel_tables_unchanged [OF collected_tables_parallel [OF assms]]
  by (simp add: detect_def Let_def)

section \<open>Properties of \<^verbatim>\<open>main\<close>\<close>


lemma bind_io_return [simp]:
  "bind_io (ev, Inr x) f = (ev @ fst (f x), snd (f x))"
  by (simp add: bind_io_def split: prod.splits)

lemma bind_io_raise [simp]:
  "bind_io (ev, Inl e) f = (ev, Inl e)"
  by (simp add: bind_io_def)

subsection \<open>Printing\<close>



lemma print_prints: "list_all is_print (fst (print out s))"
  by (simp add: print_def split: stdout_result.splits)



lemma print_all_prints: "list_all is_print (fst (print_all out ls))"
proof (induction ls)
  case Nil
  then show ?case by simp
next
  case (Cons l ls)
  then show ?case
    using print_prints [of out l]
    by (cases "print out l"; cases "snd (print out l)") auto
qed

subsection \<open>The collector raises nothing but \<^verbatim>\<open>OSError\<close>\<close>







subsection \<open>The collector returns when every file can be read\<close>







subsection \<open>The events of the locator and of the report generator\<close>






subsection \<open>The runs of \<^verbatim>\<open>main\<close>\<close>










section \<open>The scenario of the specification, run\<close>

lemma example_findings:
  "find_inconsistencies example_checksums example_sizes =
     \<lparr>inconsistent_files =
        [(''dist-zip/app.bin'', [(''001'', ''00000041''), (''002'', ''00000840'')])],
      missing_files = [(''dist-zip/only.txt'', [''002''])],
      size_differences = [(''dist-zip/app.bin'', [(''001'', 1), (''002'', 2)])],
      file_sizes = example_sizes\<rparr>"
  by code_simp

lemma example_run:
  "main example_hashlib plain_stdout example_os example_args =
     ([Print ''Found 2 builds for version 1.0'',
       Print ''  - build-001'',
       Print ''  - build-002'',
       Print (CHR 0x0A # ''Calculating checksums...''),
       Hashed ''/r/1.0/build-001/dist-zip/app.bin'',
       Hashed ''/r/1.0/build-002/dist-zip/app.bin'',
       Print ''Finding inconsistencies...'',
       Print (CHR 0x0A # ''Checksum Comparison Report''),
       Print ''========================'',
       Print ''Builds analyzed: 001, 002'',
       Print ''Total builds: 2'',
       Print ''Files with inconsistent checksums: 1'',
       Print ''Files missing in some builds: 0'',
       Print ''Files with size differences: 1'',
       Print (CHR 0x0A # ''Inconsistent Files:''),
       Print (CHR 0x0A # ''  dist-zip/app.bin:''),
       Print ''    Build 001: 00000041'',
       Print ''    Build 002: 00000840'',
       ReportWritten ''/w/out.json''
         (Report [''001'', ''002''] 2
            1 [(''dist-zip/app.bin'', [(''001'', ''00000041''), (''002'', ''00000840'')])]
            0 []
            1 [(''dist-zip/app.bin'', [(''001'', 1), (''002'', 2)])]),
       Print (CHR 0x0A # ''Detailed report saved to /w/out.json'')],
      Inr ())"
  by code_simp

end
